theory Spec2Isabelle
  imports Complex_Main "HOL-Library.Char_ord" "HOL-Library.List_Lexorder" "HOL-Library.Sublist"
    "HOL-Library.Multiset"
begin

section \<open>Python built-ins used by the two programs\<close>

text \<open>
  Strings are character lists. Numeric coefficients (Python \<open>int\<close> and \<open>float\<close>) are
  modelled as exact rationals; floating-point rounding is outside the model. Signs are
  Python \<open>int\<close>s, modelled as \<open>int\<close>.

  A \<open>dict\<close> is an association list with distinct keys, in insertion order (the order in which
  \<open>items()\<close> and \<open>keys()\<close> iterate).
\<close>

text \<open>\<open>s.index(c)\<close> for a character that occurs in \<open>s\<close> (every call is guarded by \<open>c in s\<close>).\<close>

definition str_index :: "string \<Rightarrow> char \<Rightarrow> nat" where
  "str_index s c = length (takeWhile (\<lambda>x. x \<noteq> c) s)"

text \<open>\<open>s.count(sub)\<close> and \<open>s.replace(old, new)\<close> for a non-empty pattern: a scan from the
  left over non-overlapping occurrences.\<close>

function str_count :: "string \<Rightarrow> string \<Rightarrow> nat" where
  "str_count [] sub = 0"
| "str_count (x # xs) sub =
     (if sub \<noteq> [] \<and> take (length sub) (x # xs) = sub
      then Suc (str_count (drop (length sub) (x # xs)) sub)
      else str_count xs sub)"
  by pat_completeness auto
termination
  by (relation "measure (\<lambda>(s, sub). length s)") auto

function str_replace :: "string \<Rightarrow> string \<Rightarrow> string \<Rightarrow> string" where
  "str_replace [] old new = []"
| "str_replace (x # xs) old new =
     (if old \<noteq> [] \<and> take (length old) (x # xs) = old
      then new @ str_replace (drop (length old) (x # xs)) old new
      else x # str_replace xs old new)"
  by pat_completeness auto
termination
  by (relation "measure (\<lambda>(s, old, new). length s)") auto

text \<open>\<open>s.endswith(suf)\<close>.\<close>

definition endswith :: "string \<Rightarrow> string \<Rightarrow> bool" where
  "endswith s suf = (length suf \<le> length s \<and> drop (length s - length suf) s = suf)"

text \<open>\<open>sep.join(parts)\<close>.\<close>

fun str_join :: "string \<Rightarrow> string list \<Rightarrow> string" where
  "str_join sep [] = []"
| "str_join sep [p] = p"
| "str_join sep (p # q # ps) = p @ sep @ str_join sep (q # ps)"

text \<open>\<open>itertools.combinations(xs, r)\<close>: the \<open>r\<close>-element subsequences in lexicographic
  order of positions.\<close>

fun combinations :: "'a list \<Rightarrow> nat \<Rightarrow> 'a list list" where
  "combinations xs 0 = [[]]"
| "combinations [] (Suc r) = []"
| "combinations (x # xs) (Suc r) = map ((#) x) (combinations xs r) @ combinations xs (Suc r)"

section \<open>The symbolic engine (concept/cga.py): blade canonicalizer\<close>

definition AXES :: string where
  "AXES = ''-+xyz''"

text \<open>The inner \<open>while c in axes\<close> loop of \<open>canonicalize\<close>, on the state
  \<open>(axes, ret, swaps)\<close>.\<close>

function pull_axis :: "char \<Rightarrow> string \<times> string \<times> nat \<Rightarrow> string \<times> string \<times> nat" where
  "pull_axis c (axes, ret, swaps) =
     (if c \<in> set axes
      then pull_axis c (remove1 c axes, ret @ [c], swaps + str_index axes c)
      else (axes, ret, swaps))"
  by pat_completeness auto
termination
  by (relation "measure (\<lambda>(c, axes, ret, swaps). length axes)")
     (auto simp: length_remove1 intro!: diff_less length_pos_if_in_set)

declare pull_axis.simps [simp del]

text \<open>\<open>canonicalize(axes)\<close>. The argument is the string after \<open>''.join(axes)\<close>, which is the
  identity on a \<open>str\<close>.\<close>

definition canonicalize :: "string \<Rightarrow> string \<times> int" where
  "canonicalize axes =
     (let (rest, ret, swaps) = fold pull_axis AXES (axes, [], 0);
          swaps = swaps + str_count ret ''--'';
          ret = fold (\<lambda>c r. str_replace r [c, c] []) AXES ret;
          sign = (if swaps mod 2 \<noteq> 0 then - 1 else 1)
      in (ret, sign))"

section \<open>The blade-multiplication generator (gen_dodeca.py)\<close>

definition NDIM :: nat where
  "NDIM = 3"

text \<open>The generator's own \<open>AXES\<close> (the engine's is \<^term>\<open>AXES\<close>).\<close>

definition AXES_gen :: string where
  "AXES_gen = ''mpxyzwuv''"

datatype error = MalformedBlade | StopIteration | NotInvertible | ZeroDivisionError | KeyError

text \<open>The \<open>for ax in AXES\<close> loop of \<open>multiply_axes\<close> on the state \<open>(ret, sign, a, b)\<close>;
  the empty axis list is the code after the loop. \<open>a[0]\<close> and \<open>b[0]\<close> are read only after
  the test \<open>not a or not b\<close>, and \<open>b\<close> is unchanged between that test and \<open>b[0]\<close>.\<close>

fun multiply_axes_loop ::
  "string \<Rightarrow> string \<Rightarrow> int \<Rightarrow> string \<Rightarrow> string \<Rightarrow> error + (string \<times> int)" where
  "multiply_axes_loop [] ret sign a b =
     (if a \<noteq> [] \<or> b \<noteq> [] then Inl MalformedBlade else Inr (ret, sign))"
| "multiply_axes_loop (ax # axs) ret sign a b =
     (if a = [] \<or> b = [] then Inr (ret @ a @ b, sign)
      else
        let (ret, a) = (if hd a = ax then (ret @ [ax], tl a) else (ret, a));
            (ret, b, sign) =
              (if hd b = ax then (ret @ [ax], tl b, sign * (- 1) ^ length a)
               else (ret, b, sign));
            (ret, sign) =
              (if endswith ret [ax, ax]
               then (butlast (butlast ret), if ax = CHR ''m'' then sign * (- 1) else sign)
               else (ret, sign))
        in multiply_axes_loop axs ret sign a b)"

definition multiply_axes :: "string \<Rightarrow> string \<Rightarrow> error + (string \<times> int)" where
  "multiply_axes a b = multiply_axes_loop AXES_gen [] 1 a b"

text \<open>\<open>components(grade)\<close> and \<open>prop\<close> (named \<open>prop_field\<close>: \<open>prop\<close> is reserved).\<close>

definition components :: "nat \<Rightarrow> string list" where
  "components grade = combinations (take (NDIM + 2) AXES_gen) grade"

definition prop_field :: "string \<Rightarrow> string" where
  "prop_field comps = (if comps \<noteq> [] then comps else ''s'')"


section \<open>The symbolic engine: polynomial ring (class ScalarExpr)\<close>

text \<open>\<open>d[k] += v\<close> on a \<open>defaultdict\<close> whose missing entries read as \<open>dflt\<close>: an existing
  key keeps its position, a new key is appended.\<close>

fun dict_iadd :: "'v \<Rightarrow> ('v \<Rightarrow> 'w \<Rightarrow> 'v) \<Rightarrow> ('k \<times> 'v) list \<Rightarrow> 'k \<Rightarrow> 'w \<Rightarrow> ('k \<times> 'v) list" where
  "dict_iadd dflt add [] k v = [(k, add dflt v)]"
| "dict_iadd dflt add ((k', v') # d) k v =
     (if k' = k then (k', add v' v) # d else (k', v') # dict_iadd dflt add d k v)"

text \<open>\<open>d[k]\<close> read on a \<open>defaultdict\<close>: a missing key is inserted with the default value.\<close>

definition dict_getitem :: "'v \<Rightarrow> ('k \<times> 'v) list \<Rightarrow> 'k \<Rightarrow> 'v \<times> ('k \<times> 'v) list" where
  "dict_getitem dflt d k =
     (case map_of d k of Some v \<Rightarrow> (v, d) | None \<Rightarrow> (dflt, d @ [(k, dflt)]))"

text \<open>The field \<open>terms\<close> of a \<open>ScalarExpr\<close>: variable tuples to coefficients.\<close>

type_synonym ScalarExpr = "(string list \<times> rat) list"

text \<open>The loop of \<open>ScalarExpr.__init__\<close> over an iterable of \<open>(k, v)\<close> pairs (the items of a
  \<open>dict\<close> included).\<close>

definition ScalarExpr_init :: "(string list \<times> rat) list \<Rightarrow> ScalarExpr" where
  "ScalarExpr_init terms =
     fold (\<lambda>(k, v) d. if v \<noteq> 0 then dict_iadd 0 (+) d (sort k) v else d) terms []"

text \<open>The constructor's dispatch on the type of its argument.\<close>

datatype ScalarExpr_arg = ArgNone | ArgNum rat | ArgStr string | ArgTerms "(string list \<times> rat) list"

fun ScalarExpr :: "ScalarExpr_arg \<Rightarrow> ScalarExpr" where
  "ScalarExpr ArgNone = []"
| "ScalarExpr (ArgNum c) = ScalarExpr_init [([], c)]"
| "ScalarExpr (ArgStr s) = ScalarExpr_init [([s], 1)]"
| "ScalarExpr (ArgTerms ts) = ScalarExpr_init ts"

text \<open>\<open>__mul__\<close>: by a \<open>ScalarExpr\<close>, and by a number.\<close>

definition ScalarExpr_mul :: "ScalarExpr \<Rightarrow> ScalarExpr \<Rightarrow> ScalarExpr" where
  "ScalarExpr_mul self rhs =
     ScalarExpr_init
       (fold (\<lambda>(vars1, coef1) new_terms.
          fold (\<lambda>(vars2, coef2) new_terms.
            dict_iadd 0 (+) new_terms (vars1 @ vars2) (coef1 * coef2)) rhs new_terms)
        self [])"

definition ScalarExpr_mul_num :: "ScalarExpr \<Rightarrow> rat \<Rightarrow> ScalarExpr" where
  "ScalarExpr_mul_num self rhs = ScalarExpr_init (map (\<lambda>(k, v). (k, v * rhs)) self)"

text \<open>\<open>__add__\<close>: with a \<open>ScalarExpr\<close>, and with a number (the key \<open>''\<close> sorts to \<open>()\<close>).\<close>

definition ScalarExpr_add :: "ScalarExpr \<Rightarrow> ScalarExpr \<Rightarrow> ScalarExpr" where
  "ScalarExpr_add self rhs =
     ScalarExpr_init
       (filter (\<lambda>(k, v). v \<noteq> 0)
          (fold (\<lambda>(vars, coef) new_terms. dict_iadd 0 (+) new_terms vars coef) rhs self))"

definition ScalarExpr_add_num :: "ScalarExpr \<Rightarrow> rat \<Rightarrow> ScalarExpr" where
  "ScalarExpr_add_num self rhs = ScalarExpr_add self (ScalarExpr_init [([], rhs)])"

definition ScalarExpr_neg :: "ScalarExpr \<Rightarrow> ScalarExpr" where
  "ScalarExpr_neg self = ScalarExpr_mul_num self (- 1)"

definition ScalarExpr_sub :: "ScalarExpr \<Rightarrow> ScalarExpr \<Rightarrow> ScalarExpr" where
  "ScalarExpr_sub self rhs = ScalarExpr_add self (ScalarExpr_neg rhs)"

text \<open>\<open>__bool__\<close> and \<open>__eq__\<close> (comparison with a number).\<close>

definition ScalarExpr_bool :: "ScalarExpr \<Rightarrow> bool" where
  "ScalarExpr_bool self = list_ex (\<lambda>(k, v). v \<noteq> 0) self"

definition ScalarExpr_eq :: "ScalarExpr \<Rightarrow> rat \<Rightarrow> bool" where
  "ScalarExpr_eq self scalar =
     (length self = 1 \<and> map_of self [] \<noteq> None \<and> map_of self [] = Some scalar)"


text \<open>\<open>ScalarExpr.__str__\<close>. How Python prints a number (\<open>int\<close> or \<open>float\<close>) is the parameter
  \<open>fmt\<close>; \<open>latex\<close> is the module's flag \<open>LATEX\<close>.\<close>

definition LATEX :: bool where
  "LATEX = False"

function nat_str :: "nat \<Rightarrow> string" where
  "nat_str n =
     (if n < 10 then [char_of (48 + n)] else nat_str (n div 10) @ [char_of (48 + n mod 10)])"
  by pat_completeness auto
termination
  by (relation "measure id") auto

declare nat_str.simps [simp del]

definition var_to_string :: "bool \<Rightarrow> string \<Rightarrow> nat \<Rightarrow> string" where
  "var_to_string latex var pw =
     (if pw = 1 then var
      else if latex then ''{'' @ var @ ''}^'' @ nat_str pw
      else var @ ''**'' @ nat_str pw)"

definition term_to_string :: "(rat \<Rightarrow> string) \<Rightarrow> bool \<Rightarrow> rat \<Rightarrow> string list \<Rightarrow> string" where
  "term_to_string fmt latex coef vars =
     (let var_string =
            str_join (if latex then '' '' else '' * '')
              (map (\<lambda>v. var_to_string latex v (count_list vars v)) (sort (remdups vars)))
      in if coef = 1 \<and> var_string \<noteq> [] then var_string
         else if coef = - 1 \<and> var_string \<noteq> [] then
           (if latex then ''-'' @ var_string else ''-('' @ var_string @ '')'')
         else (if latex then fmt coef @ '' '' @ var_string else fmt coef @ '' * '' @ var_string))"

definition ScalarExpr_str :: "(rat \<Rightarrow> string) \<Rightarrow> bool \<Rightarrow> ScalarExpr \<Rightarrow> string" where
  "ScalarExpr_str fmt latex self =
     str_join '' + ''
       (map (\<lambda>var. term_to_string fmt latex (the (map_of self var)) var) (sort (map fst self)))"

section \<open>The symbolic engine: multivectors (class CgaExpr)\<close>

text \<open>The field \<open>terms\<close> of a \<open>CgaExpr\<close>: blade labels to polynomials. A value handed to the
  constructor is a number or a \<open>ScalarExpr\<close>.\<close>

type_synonym CgaExpr = "(string \<times> ScalarExpr) list"

datatype scalar = Num rat | Poly ScalarExpr

text \<open>\<open>if v\<close>, \<open>v * sign\<close> and \<open>self.terms[k] + w\<close> for such a value.\<close>

fun scalar_bool :: "scalar \<Rightarrow> bool" where
  "scalar_bool (Num c) = (c \<noteq> 0)"
| "scalar_bool (Poly p) = ScalarExpr_bool p"

fun scalar_mul_sign :: "scalar \<Rightarrow> int \<Rightarrow> scalar" where
  "scalar_mul_sign (Num c) sign = Num (c * of_int sign)"
| "scalar_mul_sign (Poly p) sign = Poly (ScalarExpr_mul_num p (of_int sign))"

fun ScalarExpr_add_scalar :: "ScalarExpr \<Rightarrow> scalar \<Rightarrow> ScalarExpr" where
  "ScalarExpr_add_scalar self (Num c) = ScalarExpr_add_num self c"
| "ScalarExpr_add_scalar self (Poly p) = ScalarExpr_add self p"

text \<open>The loop of \<open>CgaExpr.__init__\<close> over an iterable of \<open>(k, v)\<close> pairs; the default of
  \<open>defaultdict(ScalarExpr)\<close> is \<open>ScalarExpr()\<close>, the empty term mapping.\<close>

definition CgaExpr_init :: "(string \<times> scalar) list \<Rightarrow> CgaExpr" where
  "CgaExpr_init terms =
     fold (\<lambda>(k, v) d.
        if scalar_bool v
        then (let (k, sign) = canonicalize k
              in dict_iadd [] ScalarExpr_add_scalar d k (scalar_mul_sign v sign))
        else d) terms []"

text \<open>The constructor's dispatch: a scalar is stored under the key \<open>()\<close>, which joins to
  \<open>''\<close>; a string \<open>s\<close> under \<open>(s,)\<close>, which joins to \<open>s\<close>.\<close>

datatype CgaExpr_arg =
  CArgNone | CArgScalar scalar | CArgStr string | CArgTerms "(string \<times> scalar) list"

fun CgaExpr :: "CgaExpr_arg \<Rightarrow> CgaExpr" where
  "CgaExpr CArgNone = []"
| "CgaExpr (CArgScalar v) = CgaExpr_init [([], v)]"
| "CgaExpr (CArgStr s) = CgaExpr_init [(s, Num 1)]"
| "CgaExpr (CArgTerms ts) = CgaExpr_init ts"

text \<open>A term mapping of polynomials handed back to the constructor.\<close>

definition poly_items :: "CgaExpr \<Rightarrow> (string \<times> scalar) list" where
  "poly_items d = map (\<lambda>(k, v). (k, Poly v)) d"

text \<open>\<open>__mul__\<close>: by a \<open>CgaExpr\<close> (the geometric product), by a number, by a \<open>ScalarExpr\<close>.\<close>

definition CgaExpr_mul :: "CgaExpr \<Rightarrow> CgaExpr \<Rightarrow> CgaExpr" where
  "CgaExpr_mul self rhs =
     CgaExpr_init (poly_items
       (fold (\<lambda>(axes1, coef1) new_terms.
          fold (\<lambda>(axes2, coef2) new_terms.
            let (axes, sign) = canonicalize (axes1 @ axes2);
                coef = ScalarExpr_mul_num (ScalarExpr_mul coef1 coef2) (of_int sign)
            in dict_iadd [] ScalarExpr_add new_terms axes coef) rhs new_terms)
        self []))"

definition CgaExpr_mul_num :: "CgaExpr \<Rightarrow> rat \<Rightarrow> CgaExpr" where
  "CgaExpr_mul_num self rhs =
     CgaExpr_init (map (\<lambda>(k, v). (k, Poly (ScalarExpr_mul_num v rhs))) self)"


definition CgaExpr_neg :: "CgaExpr \<Rightarrow> CgaExpr" where
  "CgaExpr_neg self = CgaExpr_mul_num self (- 1)"

definition CgaExpr_add :: "CgaExpr \<Rightarrow> CgaExpr \<Rightarrow> CgaExpr" where
  "CgaExpr_add self rhs =
     CgaExpr_init (poly_items
       (fold (\<lambda>(vars, coef) new_terms. dict_iadd [] ScalarExpr_add new_terms vars coef) rhs self))"

definition CgaExpr_sub :: "CgaExpr \<Rightarrow> CgaExpr \<Rightarrow> CgaExpr" where
  "CgaExpr_sub self rhs = CgaExpr_add self (CgaExpr_neg rhs)"

definition CgaExpr_bool :: "CgaExpr \<Rightarrow> bool" where
  "CgaExpr_bool self = list_ex (\<lambda>(k, v). ScalarExpr_bool v) self"

text \<open>The properties \<open>grade\<close> (\<open>next(iter(...))\<close> raises \<open>StopIteration\<close> on an empty
  mapping), \<open>s\<close> and \<open>rev\<close>, and \<open>grade_project\<close>.\<close>

definition grade :: "CgaExpr \<Rightarrow> error + nat" where
  "grade self = (case self of [] \<Rightarrow> Inl StopIteration | (k, v) # rest \<Rightarrow> Inr (length k))"


definition CgaExpr_rev :: "CgaExpr \<Rightarrow> CgaExpr" where
  "CgaExpr_rev self = CgaExpr_init (map (\<lambda>(k, v). (rev k, Poly v)) self)"

definition grade_project :: "CgaExpr \<Rightarrow> int \<Rightarrow> CgaExpr" where
  "grade_project self g = CgaExpr_init (poly_items (filter (\<lambda>(k, v). int (length k) = g) self))"

text \<open>\<open>__lshift__\<close> and \<open>__xor__\<close>: the product is evaluated first, then the two grades.\<close>

definition CgaExpr_lshift :: "CgaExpr \<Rightarrow> CgaExpr \<Rightarrow> error + CgaExpr" where
  "CgaExpr_lshift self rhs =
     (let prod = CgaExpr_mul self rhs in
      case grade rhs of Inl e \<Rightarrow> Inl e
      | Inr gr \<Rightarrow> (case grade self of Inl e \<Rightarrow> Inl e
          | Inr gs \<Rightarrow> Inr (grade_project prod (int gr - int gs))))"

definition CgaExpr_xor :: "CgaExpr \<Rightarrow> CgaExpr \<Rightarrow> error + CgaExpr" where
  "CgaExpr_xor self rhs =
     (let prod = CgaExpr_mul self rhs in
      case grade self of Inl e \<Rightarrow> Inl e
      | Inr gs \<Rightarrow> (case grade rhs of Inl e \<Rightarrow> Inl e
          | Inr gr \<Rightarrow> Inr (grade_project prod (int gs + int gr))))"





section \<open>The symbolic engine: rendering a multivector\<close>

text \<open>\<open>GANJA_AXES\<close>; a character that is not a key raises \<open>KeyError\<close>.\<close>

definition GANJA_AXES :: "(char \<times> string) list" where
  "GANJA_AXES =
     [(CHR ''-'', ''eminus''), (CHR ''+'', ''eplus''), (CHR ''i'', ''ni''), (CHR ''o'', ''no''),
      (CHR ''x'', ''1e1''), (CHR ''y'', ''1e2''), (CHR ''z'', ''1e3''),
      (CHR ''E'', ''(eminus*eplus)'')]"

fun ganja_names :: "string \<Rightarrow> error + string list" where
  "ganja_names [] = Inr []"
| "ganja_names (c # cs) =
     (case map_of GANJA_AXES c of None \<Rightarrow> Inl KeyError
      | Some n \<Rightarrow> (case ganja_names cs of Inl e \<Rightarrow> Inl e | Inr ns \<Rightarrow> Inr (n # ns)))"

text \<open>\<open>CgaExpr.get_human_term\<close>. \<open>self.terms\<close> is a \<open>defaultdict\<close>, so every read
  \<open>self.terms[...]\<close> goes through \<^const>\<open>dict_getitem\<close>; the function returns its result
  together with \<open>self.terms\<close> as the call leaves it.\<close>

definition get_human_term ::
  "(rat \<Rightarrow> string) \<Rightarrow> bool \<Rightarrow> CgaExpr \<Rightarrow> string \<Rightarrow> (error + string) \<times> CgaExpr" where
  "get_human_term fmt latex self axes =
     (let a = tl axes;
          (coef, terms) =
            (if take 1 axes = ''o'' then
               (let (p, t1) = dict_getitem [] self (CHR ''-'' # a);
                    (q, t2) = dict_getitem [] t1 (CHR ''+'' # a)
                in (ScalarExpr_sub p q, t2))
             else if take 1 axes = ''i'' then
               (let (p, t1) = dict_getitem [] self (CHR ''-'' # a);
                    (q, t2) = dict_getitem [] t1 (CHR ''+'' # a)
                in (ScalarExpr_mul_num (ScalarExpr_add p q) (1 / 2), t2))
             else if take 1 axes = ''E'' then dict_getitem [] self (CHR ''-'' # CHR ''+'' # a)
             else dict_getitem [] self axes)
      in if \<not> ScalarExpr_bool coef then (Inr [], terms)
         else
           (case (if latex then Inr (str_replace axes ''i'' (CHR 0x5C # ''infty ''))
                  else (case ganja_names axes of Inl e \<Rightarrow> Inl e
                        | Inr ns \<Rightarrow> Inr (str_join ''*'' ns))) of
              Inl e \<Rightarrow> (Inl e, terms)
            | Inr axes_string \<Rightarrow>
                (Inr (if ScalarExpr_eq coef 1 \<and> axes_string \<noteq> [] then axes_string
                      else if ScalarExpr_eq coef (- 1) \<and> axes_string \<noteq> [] then ''-'' @ axes_string
                      else if length coef > 1 then
                        (if latex then ''('' @ ScalarExpr_str fmt latex coef @ '') '' @ axes_string
                         else ''('' @ ScalarExpr_str fmt latex coef @ '') * '' @ axes_string)
                      else
                        (if latex then ScalarExpr_str fmt latex coef @ '' '' @ axes_string
                         else ScalarExpr_str fmt latex coef @ '' * '' @ axes_string)),
                 terms)))"

text \<open>\<open>powerset\<close>.\<close>

definition powerset :: "'a list \<Rightarrow> 'a list list" where
  "powerset s = concat (map (combinations s) [0..<length s + 1])"

text \<open>The generator expressions of \<open>CgaExpr.__str__\<close>: the calls of \<open>get_human_term\<close> in the
  order Python makes them, each on the term mapping the previous one left. Without \<open>LATEX\<close>
  the filter calls it once and the element expression once more; with \<open>LATEX\<close> the four
  calls of the inner list come first.\<close>

fun human_terms_calls ::
  "(rat \<Rightarrow> string) \<Rightarrow> bool \<Rightarrow> string list \<Rightarrow> CgaExpr \<Rightarrow> (error + string list) \<times> CgaExpr" where
  "human_terms_calls fmt latex [] self = (Inr [], self)"
| "human_terms_calls fmt latex (axes # rest) self =
     (case get_human_term fmt latex self axes of
        (Inl e, t) \<Rightarrow> (Inl e, t)
      | (Inr it, t) \<Rightarrow>
          (case human_terms_calls fmt latex rest t of
             (Inl e, t') \<Rightarrow> (Inl e, t')
           | (Inr its, t') \<Rightarrow> (Inr (it # its), t')))"

fun str_plain_loop ::
  "(rat \<Rightarrow> string) \<Rightarrow> string list \<Rightarrow> CgaExpr \<Rightarrow> (error + string list) \<times> CgaExpr" where
  "str_plain_loop fmt [] self = (Inr [], self)"
| "str_plain_loop fmt (axes # rest) self =
     (case get_human_term fmt False self axes of
        (Inl e, t) \<Rightarrow> (Inl e, t)
      | (Inr c, t) \<Rightarrow>
          if c \<noteq> [] then
            (case get_human_term fmt False t axes of
               (Inl e, t') \<Rightarrow> (Inl e, t')
             | (Inr it, t') \<Rightarrow>
                 (case str_plain_loop fmt rest t' of
                    (Inl e, t'') \<Rightarrow> (Inl e, t'')
                  | (Inr its, t'') \<Rightarrow> (Inr (it # its), t'')))
          else str_plain_loop fmt rest t)"

fun str_latex_loop ::
  "(rat \<Rightarrow> string) \<Rightarrow> string list \<Rightarrow> CgaExpr \<Rightarrow> (error + string list) \<times> CgaExpr" where
  "str_latex_loop fmt [] self = (Inr [], self)"
| "str_latex_loop fmt (axes # rest) self =
     (case human_terms_calls fmt True
             [axes, CHR ''o'' # axes, CHR ''i'' # axes, CHR ''E'' # axes] self of
        (Inl e, t) \<Rightarrow> (Inl e, t)
      | (Inr its, t) \<Rightarrow>
          (case str_latex_loop fmt rest t of
             (Inl e, t') \<Rightarrow> (Inl e, t')
           | (Inr more, t') \<Rightarrow> (Inr (filter (\<lambda>it. it \<noteq> []) its @ more), t')))"

text \<open>\<open>CgaExpr.__str__\<close>: the text, and \<open>self.terms\<close> as the call leaves it. The two
  \<open>replace\<close> calls apply to the joined string (a method call binds tighter than \<open>+\<close>).\<close>

definition CgaExpr_str ::
  "(rat \<Rightarrow> string) \<Rightarrow> bool \<Rightarrow> CgaExpr \<Rightarrow> (error + string) \<times> CgaExpr" where
  "CgaExpr_str fmt latex self =
     (if latex then
        (case str_latex_loop fmt (powerset (drop 2 AXES)) self of
           (Inl e, t) \<Rightarrow> (Inl e, t)
         | (Inr its, t) \<Rightarrow>
             (Inr (''&= '' @
                   str_replace
                     (str_replace (str_join ([CHR 0x5C, CHR 0x5C, CHR 0x0A] @ ''&+ '') its)
                        ''.0 '' '' '')
                     '' + -'' '' - ''), t))
      else
        (case str_plain_loop fmt (powerset AXES) self of
           (Inl e, t) \<Rightarrow> (Inl e, t)
         | (Inr its, t) \<Rightarrow>
             (Inr (str_replace (str_replace (str_join '' + '' its) ''.0 '' '' '') '' + -'' '' - ''),
              t)))"

section \<open>The generator: emitted kernels\<close>

text \<open>The body of the double loop of \<open>gen_mul_func\<close> for one pair of blades: the line it
  appends to \<open>ret\<close>, if any.\<close>

definition kernel_term :: "int \<Rightarrow> string \<Rightarrow> string \<Rightarrow> error + string option" where
  "kernel_term result_grade a b =
     (case multiply_axes a b of Inl e \<Rightarrow> Inl e
      | Inr (ab, sign) \<Rightarrow>
          (let sign = (if sign < 0 then ''-'' else '' '') in
           if int (length ab) = result_grade
           then Inr (Some (''  ret.'' @ prop_field ab @ '' += '' @ sign @ ''a.'' @ prop_field a
                           @ '' * b.'' @ prop_field b @ '';'' @ [CHR 0x0A]))
           else Inr None))"

fun kernel_lines :: "int \<Rightarrow> (string \<times> string) list \<Rightarrow> error + string" where
  "kernel_lines result_grade [] = Inr []"
| "kernel_lines result_grade ((a, b) # rest) =
     (case kernel_term result_grade a b of Inl e \<Rightarrow> Inl e
      | Inr line \<Rightarrow>
          (case kernel_lines result_grade rest of Inl e \<Rightarrow> Inl e
           | Inr more \<Rightarrow> Inr ((case line of None \<Rightarrow> [] | Some l \<Rightarrow> l) @ more)))"

definition int_str :: "int \<Rightarrow> string" where
  "int_str i = (if i < 0 then ''-'' @ nat_str (nat (- i)) else nat_str (nat i))"

definition gen_mul_func :: "string \<Rightarrow> nat \<Rightarrow> nat \<Rightarrow> int \<Rightarrow> error + string" where
  "gen_mul_func funcname r s result_grade =
     (if result_grade \<le> 0 then Inr []
      else
        (case kernel_lines result_grade
                (concat (map (\<lambda>a. map (\<lambda>b. (a, b)) (components s)) (components r))) of
           Inl e \<Rightarrow> Inl e
         | Inr body \<Rightarrow>
             Inr (''Blade'' @ int_str result_grade @ '' '' @ funcname @ ''_'' @ nat_str r @ ''_''
                  @ nat_str s @ ''(Blade'' @ nat_str r @ '' a, Blade'' @ nat_str s @ '' b) {''
                  @ [CHR 0x0A]
                  @ ''  Blade'' @ int_str result_grade @ '' ret;'' @ [CHR 0x0A]
                  @ body
                  @ ''  return ret;'' @ [CHR 0x0A]
                  @ ''}'' @ [CHR 0x0A])))"

definition gen_wedge_fn :: "nat \<Rightarrow> nat \<Rightarrow> error + string" where
  "gen_wedge_fn r s = gen_mul_func ''wedge'' r s (int r + int s)"

definition gen_left_contract_fn :: "nat \<Rightarrow> nat \<Rightarrow> error + string" where
  "gen_left_contract_fn r s = gen_mul_func ''lc'' r s (int s - int r)"


section \<open>Notions used to state and prove the properties\<close>

text \<open>A label is canonical over an alphabet when its axes belong to the alphabet and are
  strictly increasing in the alphabet's order.\<close>

definition canonical :: "string \<Rightarrow> string \<Rightarrow> bool" where
  "canonical alphabet l =
     (set l \<subseteq> set alphabet \<and>
      sorted_wrt (\<lambda>a b. str_index alphabet a < str_index alphabet b) l)"

text \<open>What the \<open>while\<close> loop of \<open>canonicalize\<close> adds to \<open>swaps\<close> for one axis \<open>c\<close>: for every
  occurrence of \<open>c\<close>, the number \<open>n\<close> of other symbols in front of it.\<close>

fun pull_swaps :: "char \<Rightarrow> nat \<Rightarrow> string \<Rightarrow> nat" where
  "pull_swaps c n [] = 0"
| "pull_swaps c n (x # xs) = (if x = c then n + pull_swaps c n xs else pull_swaps c (Suc n) xs)"

fun swaps_of :: "string \<Rightarrow> string \<Rightarrow> nat" where
  "swaps_of [] s = 0"
| "swaps_of (c # cs) s = pull_swaps c 0 s + swaps_of cs (filter (\<lambda>x. x \<noteq> c) s)"

text \<open>The string with \<open>n c\<close> copies of every axis \<open>c\<close>, in the order of the axis list.\<close>

fun blocks :: "string \<Rightarrow> (char \<Rightarrow> nat) \<Rightarrow> string" where
  "blocks [] n = []"
| "blocks (c # cs) n = replicate (n c) c @ blocks cs n"

definition label :: "string \<Rightarrow> string" where
  "label s = blocks AXES (\<lambda>c. count_list s c mod 2)"

text \<open>The engine's name of a generator axis: \<open>m\<close> is \<open>-\<close>, \<open>p\<close> is \<open>+\<close>.\<close>

definition engine_axis :: "char \<Rightarrow> char" where
  "engine_axis c = (if c = CHR ''m'' then CHR ''-'' else if c = CHR ''p'' then CHR ''+'' else c)"

text \<open>The comparison of one line of the generator's \<open>wedge_1_1\<close> kernel with the engine's outer
  product of the two basis vectors, as a test that can be run.\<close>

definition wedge_term_matches :: "char \<Rightarrow> char \<Rightarrow> bool" where
  "wedge_term_matches a b =
     (case multiply_axes [a] [b] of Inl e \<Rightarrow> False
      | Inr (ab, sign) \<Rightarrow>
          length ab = 2 \<and>
          kernel_term 2 [a] [b] =
            Inr (Some (''  ret.'' @ ab @ '' += '' @ (if sign < 0 then ''-'' else '' '') @ ''a.''
                       @ [a] @ '' * b.'' @ [b] @ '';'' @ [CHR 0x0A])) \<and>
          canonicalize (map engine_axis [a, b]) = (map engine_axis ab, sign) \<and>
          CgaExpr_xor (CgaExpr (CArgStr [engine_axis a])) (CgaExpr (CArgStr [engine_axis b])) =
            Inr [(map engine_axis ab, [([], of_int sign)])])"

text \<open>The data-model invariants. A polynomial: distinct keys, each a sorted tuple, each with a
  coefficient other than zero. A multivector: distinct keys, each a canonical label, each
  with a polynomial that satisfies its invariant and has a term.\<close>

definition wf_ScalarExpr :: "ScalarExpr \<Rightarrow> bool" where
  "wf_ScalarExpr p = (distinct (map fst p) \<and> (\<forall>(k, c) \<in> set p. sorted k \<and> c \<noteq> 0))"

definition wf_CgaExpr :: "CgaExpr \<Rightarrow> bool" where
  "wf_CgaExpr A =
     (distinct (map fst A) \<and> (\<forall>(k, v) \<in> set A. canonical AXES k \<and> wf_ScalarExpr v \<and> v \<noteq> []))"

definition homogeneous :: "nat \<Rightarrow> CgaExpr \<Rightarrow> bool" where
  "homogeneous g A = (\<forall>(k, v) \<in> set A. length k = g)"



definition sgn_of :: "string \<Rightarrow> int" where
  "sgn_of s = (if even (swaps_of AXES s + count_list s CHR ''-'' div 2) then 1 else - 1)"

text \<open>The value of a polynomial's term list: the coefficient of the monomial with sorted
  variable tuple \<open>k\<close>, as the sum over all listed terms whose tuple sorts to \<open>k\<close>; and the
  list of all pairwise products of the terms of two lists.\<close>

fun pev :: "(string list \<times> rat) list \<Rightarrow> string list \<Rightarrow> rat" where
  "pev [] k = 0"
| "pev ((k', c) # p) k = (if sort k' = k then c else 0) + pev p k"

definition rawmul :: "(string list \<times> rat) list \<Rightarrow> (string list \<times> rat) list \<Rightarrow> (string list \<times> rat) list" where
  "rawmul p q = concat (map (\<lambda>(k1, c1). map (\<lambda>(k2, c2). (k1 @ k2, c1 * c2)) q) p)"

text \<open>Term lists over any key: the sum of the coefficients listed under a key, and the sum of
  all coefficients weighted by a function of their key.\<close>

fun gev :: "('k \<times> rat) list \<Rightarrow> 'k \<Rightarrow> rat" where
  "gev [] \<kappa> = 0"
| "gev ((\<kappa>', c) # ts) \<kappa> = (if \<kappa>' = \<kappa> then c else 0) + gev ts \<kappa>"

fun wsum :: "('k \<Rightarrow> rat) \<Rightarrow> ('k \<times> rat) list \<Rightarrow> rat" where
  "wsum H [] = 0"
| "wsum H ((\<kappa>, c) # ts) = c * H \<kappa> + wsum H ts"

text \<open>A multivector as one list of terms \<open>((label, variables), coefficient)\<close>; the normal form
  of each term (canonical label, sorted variables, the sign moved into the coefficient); the
  value of such a list; and the list of all pairwise products, keys concatenated.\<close>

type_synonym flat_terms = "((string \<times> string list) \<times> rat) list"

definition flat :: "CgaExpr \<Rightarrow> flat_terms" where
  "flat A = concat (map (\<lambda>(l, p). map (\<lambda>(k, c). ((l, k), c)) p) A)"

definition nzf :: "flat_terms \<Rightarrow> flat_terms" where
  "nzf ts = map (\<lambda>((l, k), c). ((label l, sort k), of_int (sgn_of l) * c)) ts"

definition fev :: "flat_terms \<Rightarrow> string \<Rightarrow> string list \<Rightarrow> rat" where
  "fev ts l k = gev (nzf ts) (l, k)"

definition fmul :: "flat_terms \<Rightarrow> flat_terms \<Rightarrow> flat_terms" where
  "fmul xs ys =
     concat (map (\<lambda>((l1, k1), c1). map (\<lambda>((l2, k2), c2). ((l1 @ l2, k1 @ k2), c1 * c2)) ys) xs)"



text \<open>The value of a number or polynomial handed to the \<open>CgaExpr\<close> constructor, and of a list
  of such items.\<close>

fun scal_ev :: "scalar \<Rightarrow> string list \<Rightarrow> rat" where
  "scal_ev (Num c) k = (if k = [] then c else 0)"
| "scal_ev (Poly p) k = pev p k"

fun sev :: "(string \<times> scalar) list \<Rightarrow> string \<Rightarrow> string list \<Rightarrow> rat" where
  "sev [] l k = 0"
| "sev ((l', v) # ts) l k =
     (if label l' = l then of_int (sgn_of l') * scal_ev v k else 0) + sev ts l k"










section \<open>The canonicalizer computes the parity-reduced sorted label and the sign of the sort\<close>

lemma pull_swaps_remove1:
  "c \<in> set s \<Longrightarrow> pull_swaps c n s = n + str_index s c + pull_swaps c n (remove1 c s)"
  by (induction s arbitrary: n) (auto simp: str_index_def)

lemma filter_remove1_self: "filter (\<lambda>x. x \<noteq> c) (remove1 c s) = filter (\<lambda>x. x \<noteq> c) s"
  by (induction s) auto

lemma count_list_remove1_self:
  "c \<in> set s \<Longrightarrow> Suc (count_list (remove1 c s) c) = count_list s c"
  by (induction s) auto

lemma pull_axis_eq:
  "pull_axis c (s, ret, n) =
     (filter (\<lambda>x. x \<noteq> c) s, ret @ replicate (count_list s c) c, n + pull_swaps c 0 s)"
proof (induction c "(s, ret, n)" arbitrary: s ret n rule: pull_axis.induct)
  case (1 c axes ret swaps)
  show ?case
  proof (cases "c \<in> set axes")
    case True
    have "pull_axis c (axes, ret, swaps) =
        pull_axis c (remove1 c axes, ret @ [c], swaps + str_index axes c)"
      using True by (simp add: pull_axis.simps [of c axes])
    also have "\<dots> = (filter (\<lambda>x. x \<noteq> c) (remove1 c axes),
        (ret @ [c]) @ replicate (count_list (remove1 c axes) c) c,
        (swaps + str_index axes c) + pull_swaps c 0 (remove1 c axes))"
      using "1" [OF True] by simp
    also have "\<dots> = (filter (\<lambda>x. x \<noteq> c) axes, ret @ replicate (count_list axes c) c,
        swaps + pull_swaps c 0 axes)"
      using pull_swaps_remove1 [OF True, of 0] count_list_remove1_self [OF True]
      by (simp add: filter_remove1_self replicate_append_same flip: replicate_Suc)
    finally show ?thesis .
  next
    case False
    have f: "filter (\<lambda>x. x \<noteq> c) axes = axes"
      using False by (induction axes) auto
    have z: "pull_swaps c k axes = 0" for k
      using False by (induction axes arbitrary: k) auto
    have "count_list axes c = 0" using False by (simp add: count_list_0_iff)
    then show ?thesis using False f z by (simp add: pull_axis.simps [of c axes])
  qed
qed

lemma count_list_filter_neq:
  "d \<noteq> c \<Longrightarrow> count_list (filter (\<lambda>x. x \<noteq> c) s) d = count_list s d"
  by (induction s) auto

lemma fold_pull_axis:
  "distinct axs \<Longrightarrow> fold pull_axis axs (s, ret, n) =
     (filter (\<lambda>x. x \<notin> set axs) s, ret @ blocks axs (count_list s), n + swaps_of axs s)"
proof (induction axs arbitrary: s ret n)
  case Nil
  then show ?case by simp
next
  case (Cons c cs)
  have b: "blocks cs (count_list (filter (\<lambda>x. x \<noteq> c) s)) = blocks cs (count_list s)"
    using Cons.prems by (induction cs) (auto simp: count_list_filter_neq)
  have f: "filter (\<lambda>x. x \<notin> set cs) (filter (\<lambda>x. x \<noteq> c) s) = filter (\<lambda>x. x \<notin> set (c # cs)) s"
    by (induction s) auto
  show ?case
    using Cons.prems Cons.IH [of "filter (\<lambda>x. x \<noteq> c) s"] b f
    by (simp add: pull_axis_eq)
qed

lemma str_replace_absent: "c \<notin> set s \<Longrightarrow> str_replace s [c, c] [] = s"
  by (induction s) auto

lemma str_replace_skip: "c \<notin> set pre \<Longrightarrow> str_replace (pre @ s) [c, c] [] = pre @ str_replace s [c, c] []"
  by (induction pre) auto

lemma str_replace_block:
  "c \<notin> set post \<Longrightarrow> str_replace (replicate n c @ post) [c, c] [] = replicate (n mod 2) c @ post"
proof (induction n rule: less_induct)
  case (less n)
  consider "n = 0" | "n = 1" | m where "n = Suc (Suc m)"
    by (metis One_nat_def not0_implies_Suc)
  then show ?case
  proof cases
    case 1
    then show ?thesis using less.prems by (simp add: str_replace_absent)
  next
    case 2
    then show ?thesis using less.prems by (cases post) (auto simp: str_replace_absent)
  next
    case 3
    then show ?thesis using less.IH [of m] less.prems by simp
  qed
qed

lemma str_count_absent: "c \<notin> set s \<Longrightarrow> str_count s [c, c] = 0"
  by (induction s) auto

lemma str_count_block:
  "c \<notin> set post \<Longrightarrow> str_count (replicate n c @ post) [c, c] = n div 2"
proof (induction n rule: less_induct)
  case (less n)
  consider "n = 0" | "n = 1" | m where "n = Suc (Suc m)"
    by (metis One_nat_def not0_implies_Suc)
  then show ?case
  proof cases
    case 1
    then show ?thesis using less.prems by (simp add: str_count_absent)
  next
    case 2
    then show ?thesis using less.prems by (cases post) (auto simp: str_count_absent)
  next
    case 3
    then show ?thesis using less.IH [of m] less.prems by simp
  qed
qed

lemma set_blocks: "set (blocks cs n) \<subseteq> set cs"
  by (induction cs) auto

lemma fold_replace_blocks:
  "distinct cs \<Longrightarrow> set pre \<inter> set cs = {} \<Longrightarrow>
   fold (\<lambda>c r. str_replace r [c, c] []) cs (pre @ blocks cs n) = pre @ blocks cs (\<lambda>c. n c mod 2)"
proof (induction cs arbitrary: pre)
  case Nil
  then show ?case by simp
next
  case (Cons c cs)
  have c1: "c \<notin> set pre" using Cons.prems by auto
  have c2: "c \<notin> set (blocks cs n)" using Cons.prems set_blocks [of cs n] by auto
  have "str_replace (pre @ blocks (c # cs) n) [c, c] [] = (pre @ replicate (n c mod 2) c) @ blocks cs n"
    using c1 c2 by (simp add: str_replace_skip str_replace_block)
  moreover have "set (pre @ replicate (n c mod 2) c) \<inter> set cs = {}"
    using Cons.prems by (auto split: if_splits)
  ultimately show ?case
    using Cons.IH [of "pre @ replicate (n c mod 2) c"] Cons.prems by simp
qed

lemma canonicalize_eq:
  "canonicalize s =
     (label s, if even (swaps_of AXES s + count_list s CHR ''-'' div 2) then 1 else - 1)"
proof -
  have d: "distinct AXES" by (simp add: AXES_def)
  have f: "fold pull_axis AXES (s, [], 0) =
      (filter (\<lambda>x. x \<notin> set AXES) s, blocks AXES (count_list s), swaps_of AXES s)"
    using fold_pull_axis [OF d, of s "[]" 0] by simp
  have c: "str_count (blocks AXES (count_list s)) ''--'' = count_list s CHR ''-'' div 2"
    using str_count_block [of "CHR ''-''" "blocks ''+xyz'' (count_list s)" "count_list s CHR ''-''"]
      set_blocks [of "''+xyz''" "count_list s"]
    by (auto simp: AXES_def)
  have r: "fold (\<lambda>c r. str_replace r [c, c] []) AXES (blocks AXES (count_list s)) = label s"
    using fold_replace_blocks [OF d, of "[]" "count_list s"] by (simp add: label_def)
  show ?thesis
    unfolding canonicalize_def f using c r by (simp add: even_iff_mod_2_eq_zero)
qed

lemma str_index_Cons: "str_index (c # cs) a = (if a = c then 0 else Suc (str_index cs a))"
  by (simp add: str_index_def)

lemma canonical_Nil [simp]: "canonical alphabet []"
  by (simp add: canonical_def)

lemma canonical_Cons_alphabet:
  "c \<notin> set l \<Longrightarrow> canonical (c # cs) l = canonical cs l"
proof -
  assume c: "c \<notin> set l"
  have "sorted_wrt (\<lambda>a b. str_index (c # cs) a < str_index (c # cs) b) l
      = sorted_wrt (\<lambda>a b. str_index cs a < str_index cs b) l"
    using c by (induction l) (auto simp: str_index_Cons)
  then show ?thesis using c by (auto simp: canonical_def)
qed

lemma canonical_Cons_same:
  "canonical (c # cs) (c # l) = (c \<notin> set l \<and> canonical (c # cs) l)"
  by (auto simp: canonical_def str_index_Cons)

lemma canonical_Cons_other:
  "x \<noteq> c \<Longrightarrow> canonical (c # cs) (x # l) \<Longrightarrow> c \<notin> set l"
  by (auto simp: canonical_def str_index_Cons)

lemma canonical_tl: "canonical alphabet (x # l) \<Longrightarrow> canonical alphabet l"
  by (auto simp: canonical_def)

lemma canonical_imp_subseq: "canonical alphabet l \<Longrightarrow> subseq l alphabet"
proof (induction alphabet arbitrary: l)
  case Nil
  then show ?case by (simp add: canonical_def)
next
  case (Cons c cs)
  show ?case
  proof (cases l)
    case Nil
    then show ?thesis by simp
  next
    case (Cons x xs)
    show ?thesis
    proof (cases "x = c")
      case True
      then have "c \<notin> set xs" "canonical (c # cs) xs"
        using Cons.prems Cons by (auto simp: canonical_Cons_same)
      then have "canonical cs xs" by (simp add: canonical_Cons_alphabet)
      then show ?thesis using Cons.IH True Cons by simp
    next
      case False
      then have "c \<notin> set xs" using Cons.prems Cons canonical_Cons_other by blast
      then have "c \<notin> set l" using False Cons by auto
      then have "canonical cs l" using Cons.prems by (simp add: canonical_Cons_alphabet)
      then show ?thesis using Cons.IH Cons False by simp
    qed
  qed
qed

lemma subseq_set_subset: "subseq xs ys \<Longrightarrow> set xs \<subseteq> set ys"
  by (induction rule: list_emb.induct) auto

lemma subseq_imp_canonical: "distinct alphabet \<Longrightarrow> subseq l alphabet \<Longrightarrow> canonical alphabet l"
proof (induction alphabet arbitrary: l)
  case Nil
  then have "l = []" by simp
  then show ?case by simp
next
  case (Cons c cs)
  show ?case
  proof (cases l)
    case Nil
    then show ?thesis by simp
  next
    case (Cons x xs)
    show ?thesis
    proof (cases "x = c")
      case True
      then have s: "subseq xs cs" using Cons.prems Cons by simp
      then have "canonical cs xs" using Cons.IH Cons.prems by simp
      moreover have "c \<notin> set xs" using subseq_set_subset [OF s] Cons.prems by auto
      ultimately show ?thesis using True Cons by (simp add: canonical_Cons_same canonical_Cons_alphabet)
    next
      case False
      then have s: "subseq l cs" using Cons.prems Cons by simp
      then have "canonical cs l" using Cons.IH Cons.prems by simp
      moreover have "c \<notin> set l" using subseq_set_subset [OF s] Cons.prems by auto
      ultimately show ?thesis by (simp add: canonical_Cons_alphabet)
    qed
  qed
qed

lemma subseq_blocks: "(\<And>c. n c \<le> 1) \<Longrightarrow> subseq (blocks cs n) cs"
proof (induction cs)
  case Nil
  then show ?case by simp
next
  case (Cons c cs)
  have "n c = 0 \<or> n c = 1" using Cons.prems [of c] by auto
  then show ?case using Cons by auto
qed

lemma canonical_label: "canonical AXES (label s)"
proof -
  have "subseq (label s) AXES"
    unfolding label_def by (rule subseq_blocks) simp
  then show ?thesis by (intro subseq_imp_canonical) (simp_all add: AXES_def)
qed

text \<open>
  Claim C7. For every input sequence of axis symbols drawn from the alphabet \<open>- + x y z\<close>
  (repeats allowed, any order), \<open>canonicalize\<close> returns a canonical label (axes strictly
  increasing in the fixed axis order, so none repeated) and a sign that is \<open>+1\<close> or \<open>-1\<close>.
\<close>

theorem canonicalize_canonical:
  "set axes \<subseteq> set AXES \<Longrightarrow>
   canonical AXES (fst (canonicalize axes)) \<and>
   (snd (canonicalize axes) = 1 \<or> snd (canonicalize axes) = - 1)"
  by (simp add: canonicalize_eq canonical_label)

theorem canonicalize_canonical_witness:
  "set ''zx-y--'' \<subseteq> set AXES \<and> canonicalize ''zx-y--'' = (''-xyz'', - 1) \<and>
   canonical AXES (fst (canonicalize ''zx-y--'')) \<and>
   (snd (canonicalize ''zx-y--'') = 1 \<or> snd (canonicalize ''zx-y--'') = - 1)"
proof -
  have h: "set ''zx-y--'' \<subseteq> set AXES" by (simp add: AXES_def)
  have e: "canonicalize ''zx-y--'' = (''-xyz'', - 1)" by code_simp
  show ?thesis using h e canonicalize_canonical [OF h] by simp
qed

lemma pull_swaps_replicate: "pull_swaps c n (replicate k a) = (if a = c then k * n else 0)"
  by (induction k arbitrary: n) auto

lemma swaps_of_replicate: "swaps_of axs (replicate k a) = 0"
proof (induction axs arbitrary: k)
  case Nil
  then show ?case by simp
next
  case (Cons c cs)
  have "filter (\<lambda>x. x \<noteq> c) (replicate k a) = replicate (if a = c then 0 else k) a"
    by simp
  then show ?case using Cons.IH by (simp add: pull_swaps_replicate)
qed

lemma count_list_replicate_if: "count_list (replicate k a) c = (if a = c then k else 0)"
  by (induction k) auto

text \<open>
  Claim C8. On \<open>k \<ge> 3\<close> copies of one axis \<open>a\<close>, \<open>canonicalize\<close> returns the empty label
  when \<open>k\<close> is even and the label \<open>a\<close> when \<open>k\<close> is odd; the sign is \<open>(-1)^(k div 2)\<close> for
  the axis \<open>-\<close> and \<open>+1\<close> for every other axis.
\<close>

theorem canonicalize_repeated_axis:
  "3 \<le> k \<Longrightarrow> a \<in> set AXES \<Longrightarrow>
   canonicalize (replicate k a) =
     (if even k then [] else [a], if a = CHR ''-'' then (- 1) ^ (k div 2) else 1)"
proof -
  assume a: "a \<in> set AXES"
  have l: "label (replicate k a) = (if even k then [] else [a])"
    using a by (auto simp: label_def AXES_def count_list_replicate_if odd_iff_mod_2_eq_one)
  show ?thesis
    by (simp add: canonicalize_eq l swaps_of_replicate count_list_replicate_if)
qed

theorem canonicalize_repeated_axis_witness:
  "(3::nat) \<le> 5 \<and> CHR ''-'' \<in> set AXES \<and> canonicalize ''-----'' = (''-'', 1) \<and>
   canonicalize (replicate 6 CHR ''-'') = ([], - 1)"
proof -
  have a: "CHR ''-'' \<in> set AXES" by (simp add: AXES_def)
  have r5: "replicate 5 CHR ''-'' = ''-----''" by (simp add: numeral_eq_Suc)
  have "canonicalize ''-----'' = (''-'', 1)"
    using canonicalize_repeated_axis [of 5 "CHR ''-''", OF _ a] by (simp add: r5)
  moreover have "canonicalize (replicate 6 CHR ''-'') = ([], - 1)"
    using canonicalize_repeated_axis [of 6 "CHR ''-''", OF _ a] by simp
  ultimately show ?thesis using a by simp
qed


section \<open>The generator's blade product always returns\<close>

lemma sign_cases: "(s::int) = 1 \<or> s = - 1 \<Longrightarrow> s * (- 1) ^ n = 1 \<or> s * (- 1) ^ n = - 1"
  by (cases "even n") auto

lemma multiply_axes_loop_returns:
  "subseq a axs \<Longrightarrow> subseq b axs \<Longrightarrow> sign = 1 \<or> sign = - 1 \<Longrightarrow>
   \<exists>ab sign'. multiply_axes_loop axs ret sign a b = Inr (ab, sign') \<and> (sign' = 1 \<or> sign' = - 1)"
proof (induction axs arbitrary: a b ret sign)
  case Nil
  then show ?case by simp
next
  case (Cons ax axs)
  show ?case
  proof (cases "a = [] \<or> b = []")
    case True
    then show ?thesis using Cons.prems by auto
  next
    case False
    then obtain a0 a' b0 b' where ab: "a = a0 # a'" "b = b0 # b'"
      by (metis list.exhaust)
    define a1 where "a1 = (if a0 = ax then a' else a)"
    define b1 where "b1 = (if b0 = ax then b' else b)"
    define ret1 where "ret1 = (if a0 = ax then ret @ [ax] else ret)"
    define ret2 where "ret2 = (if b0 = ax then ret1 @ [ax] else ret1)"
    define sign2 where "sign2 = (if b0 = ax then sign * (- 1) ^ length a1 else sign)"
    define ret3 where "ret3 = (if endswith ret2 [ax, ax] then butlast (butlast ret2) else ret2)"
    define sign3 where "sign3 =
      (if endswith ret2 [ax, ax] then (if ax = CHR ''m'' then sign2 * (- 1) else sign2) else sign2)"
    have step: "multiply_axes_loop (ax # axs) ret sign a b = multiply_axes_loop axs ret3 sign3 a1 b1"
      using False ab
      by (simp add: a1_def b1_def ret1_def ret2_def sign2_def ret3_def sign3_def Let_def)
    have sa: "subseq a1 axs" using Cons.prems(1) ab by (auto simp: a1_def split: if_splits)
    have sb: "subseq b1 axs" using Cons.prems(2) ab by (auto simp: b1_def split: if_splits)
    have s2: "sign2 = 1 \<or> sign2 = - 1"
      using Cons.prems(3) sign_cases [of sign "length a1"] by (auto simp: sign2_def)
    then have s3: "sign3 = 1 \<or> sign3 = - 1" by (auto simp: sign3_def)
    show ?thesis unfolding step by (rule Cons.IH [OF sa sb s3])
  qed
qed

text \<open>
  Claim C10. For canonical blade labels \<open>a\<close> and \<open>b\<close> over the generator's first five axes
  \<open>m p x y z\<close>, \<open>multiply_axes(a, b)\<close> returns normally (the \<open>bad axes\<close> exception is
  not raised) with a sign that is \<open>+1\<close> or \<open>-1\<close>.
\<close>

theorem multiply_axes_returns:
  "canonical (take (NDIM + 2) AXES_gen) a \<Longrightarrow> canonical (take (NDIM + 2) AXES_gen) b \<Longrightarrow>
   \<exists>ab sign. multiply_axes a b = Inr (ab, sign) \<and> (sign = 1 \<or> sign = - 1)"
proof -
  assume a: "canonical (take (NDIM + 2) AXES_gen) a" and b: "canonical (take (NDIM + 2) AXES_gen) b"
  have g: "AXES_gen = take (NDIM + 2) AXES_gen @ ''wuv''" by (simp add: AXES_gen_def NDIM_def)
  have "subseq a (take (NDIM + 2) AXES_gen)" "subseq b (take (NDIM + 2) AXES_gen)"
    using a b by (simp_all add: canonical_imp_subseq)
  then have "subseq a AXES_gen" "subseq b AXES_gen"
    using g list_emb_prefix by metis+
  then show ?thesis
    unfolding multiply_axes_def by (intro multiply_axes_loop_returns) simp_all
qed

theorem multiply_axes_returns_witness:
  "canonical (take (NDIM + 2) AXES_gen) ''mx'' \<and> canonical (take (NDIM + 2) AXES_gen) ''pxz'' \<and>
   multiply_axes ''mx'' ''pxz'' = Inr (''mpz'', - 1) \<and>
   (\<exists>ab sign. multiply_axes ''mx'' ''pxz'' = Inr (ab, sign) \<and> (sign = 1 \<or> sign = - 1))"
proof -
  have a: "canonical (take (NDIM + 2) AXES_gen) ''mx''"
    by (simp add: canonical_def AXES_gen_def NDIM_def str_index_def)
  have b: "canonical (take (NDIM + 2) AXES_gen) ''pxz''"
    by (simp add: canonical_def AXES_gen_def NDIM_def str_index_def)
  have e: "multiply_axes ''mx'' ''pxz'' = Inr (''mpz'', - 1)" by code_simp
  show ?thesis using a b e multiply_axes_returns [OF a b] by simp
qed


section \<open>Polynomials: reciprocal, and a stored zero coefficient\<close>



text \<open>
  Claim C2 says that no polynomial operation stores a zero coefficient. The product
  \<open>(a - b) * (a + b)\<close> does: \<open>__mul__\<close> collects the keys \<open>('a', 'b')\<close> and \<open>('b', 'a')\<close>
  separately, and the constructor tests \<open>v != 0\<close> before it adds them under the sorted key.
\<close>

theorem ScalarExpr_mul_stores_zero:
  "ScalarExpr_mul (ScalarExpr_sub (ScalarExpr (ArgStr ''a'')) (ScalarExpr (ArgStr ''b'')))
                  (ScalarExpr_add (ScalarExpr (ArgStr ''a'')) (ScalarExpr (ArgStr ''b'')))
     = [([''a'', ''a''], 1), ([''a'', ''b''], 0), ([''b'', ''b''], - 1)]"
  by code_simp


section \<open>The generator's 1x1 outer-product kernel against the engine\<close>

lemma wedge_all: "list_all (\<lambda>a. list_all (\<lambda>b. a = b \<or> wedge_term_matches a b) ''mpxyz'') ''mpxyz''"
  by code_simp

text \<open>
  Claim C1. For every pair of distinct single-axis blades \<open>a\<close>, \<open>b\<close> over \<open>m p x y z\<close>, the
  generator's \<open>wedge_1_1\<close> kernel emits an accumulation line (the product has grade 2), and
  its label and sign are, under the renaming of \<open>m\<close> to \<open>-\<close> and \<open>p\<close> to \<open>+\<close>, those of
  \<open>canonicalize\<close> on the concatenation and of the one term of the engine's outer product
  \<open>a ^ b\<close> of the two basis vectors.
\<close>

theorem wedge_1_1_matches_engine:
  "a \<in> set (take (NDIM + 2) AXES_gen) \<Longrightarrow> b \<in> set (take (NDIM + 2) AXES_gen) \<Longrightarrow> a \<noteq> b \<Longrightarrow>
   \<exists>ab sign.
     multiply_axes [a] [b] = Inr (ab, sign) \<and> length ab = 2 \<and>
     kernel_term 2 [a] [b] =
       Inr (Some (''  ret.'' @ ab @ '' += '' @ (if sign < 0 then ''-'' else '' '') @ ''a.''
                  @ [a] @ '' * b.'' @ [b] @ '';'' @ [CHR 0x0A])) \<and>
     canonicalize (map engine_axis [a, b]) = (map engine_axis ab, sign) \<and>
     CgaExpr_xor (CgaExpr (CArgStr [engine_axis a])) (CgaExpr (CArgStr [engine_axis b])) =
       Inr [(map engine_axis ab, [([], of_int sign)])]"
proof -
  assume a: "a \<in> set (take (NDIM + 2) AXES_gen)" and b: "b \<in> set (take (NDIM + 2) AXES_gen)"
    and ab: "a \<noteq> b"
  have t: "take (NDIM + 2) AXES_gen = ''mpxyz''" by (simp add: AXES_gen_def NDIM_def)
  have "wedge_term_matches a b"
    using wedge_all a b ab unfolding t list_all_iff by blast
  then show ?thesis
    unfolding wedge_term_matches_def by (auto split: sum.splits prod.splits)
qed

theorem wedge_1_1_matches_engine_witness:
  "CHR ''x'' \<in> set (take (NDIM + 2) AXES_gen) \<and> CHR ''m'' \<in> set (take (NDIM + 2) AXES_gen) \<and>
   multiply_axes ''x'' ''m'' = Inr (''mx'', - 1) \<and>
   CgaExpr_xor (CgaExpr (CArgStr ''x'')) (CgaExpr (CArgStr ''-'')) = Inr [(''-x'', [([], - 1)])]"
proof -
  have a: "CHR ''x'' \<in> set (take (NDIM + 2) AXES_gen)" by (simp add: AXES_gen_def NDIM_def)
  have b: "CHR ''m'' \<in> set (take (NDIM + 2) AXES_gen)" by (simp add: AXES_gen_def NDIM_def)
  have e: "multiply_axes ''x'' ''m'' = Inr (''mx'', - 1)" by code_simp
  show ?thesis
    using a b e wedge_1_1_matches_engine [OF a b] by (auto simp: engine_axis_def)
qed


section \<open>Rendering a multivector changes its term mapping\<close>

text \<open>
  Claim C3 says that rendering a multivector leaves its term mapping as it was. The
  multivector \<open>CgaExpr('x')\<close> holds the one key \<open>x\<close>. One call of \<open>get_human_term('')\<close>
  leaves it with the additional key \<open>''\<close>, and \<open>__str__\<close> leaves it with all 32 labels
  as keys, 31 of them mapped to the empty polynomial: \<open>self.terms\<close> is a \<open>defaultdict\<close>,
  and reading a missing key inserts it. The property \<open>grade\<close> then changes its outcome on
  the multivector without terms: it raises before the rendering and returns 0 after it.
\<close>

theorem rendering_inserts_keys:
  "CgaExpr (CArgStr ''x'') = [(''x'', [([], 1)])] \<and>
   snd (get_human_term fmt latex [(''x'', [([], 1)])] []) = [(''x'', [([], 1)]), ([], [])] \<and>
   fst (CgaExpr_str fmt LATEX [(''x'', [([], 1)])]) = Inr ''1e1'' \<and>
   map fst (snd (CgaExpr_str fmt LATEX [(''x'', [([], 1)])])) =
     [''x'', [], ''-'', ''+'', ''y'', ''z'', ''-+'', ''-x'', ''-y'', ''-z'', ''+x'', ''+y'', ''+z'',
      ''xy'', ''xz'', ''yz'', ''-+x'', ''-+y'', ''-+z'', ''-xy'', ''-xz'', ''-yz'', ''+xy'', ''+xz'',
      ''+yz'', ''xyz'', ''-+xy'', ''-+xz'', ''-+yz'', ''-xyz'', ''+xyz'', ''-+xyz''] \<and>
   grade [] = Inl StopIteration \<and>
   grade (snd (CgaExpr_str fmt LATEX [])) = Inr 0"
  by code_simp


section \<open>Values in normal form, and the reverse of a homogeneous multivector\<close>

lemma dict_iadd_fresh:
  "k \<notin> fst ` set d \<Longrightarrow> dict_iadd dflt add d k v = d @ [(k, add dflt v)]"
  by (induction d) auto

lemma ScalarExpr_init_fold_wf:
  "distinct (map fst ts) \<Longrightarrow> fst ` set ts \<inter> fst ` set d = {} \<Longrightarrow>
   \<forall>(k, c) \<in> set ts. sorted k \<and> c \<noteq> 0 \<Longrightarrow>
   fold (\<lambda>(k, v) d. if v \<noteq> 0 then dict_iadd (0::rat) (+) d (sort k) v else d) ts d = d @ ts"
proof (induction ts arbitrary: d)
  case Nil
  then show ?case by simp
next
  case (Cons t ts)
  obtain k c where t: "t = (k, c)" by (cases t)
  have k: "k \<notin> fst ` set d" "sorted k" "c \<noteq> 0" using Cons.prems t by auto
  have s: "sort k = k" using k(2) by (simp add: sort_key_id_if_sorted)
  have "fst ` set ts \<inter> fst ` set (d @ [(k, c)]) = {}"
    using Cons.prems t by (auto simp: image_iff)
  then show ?case
    using Cons.IH [of "d @ [(k, c)]"] Cons.prems t k s by (simp add: dict_iadd_fresh)
qed

lemma ScalarExpr_init_wf: "wf_ScalarExpr p \<Longrightarrow> ScalarExpr_init p = p"
  using ScalarExpr_init_fold_wf [of p "[]"] by (simp add: wf_ScalarExpr_def ScalarExpr_init_def)

lemma wf_ScalarExpr_scale:
  "wf_ScalarExpr p \<Longrightarrow> s \<noteq> 0 \<Longrightarrow> wf_ScalarExpr (map (\<lambda>(k, c). (k, c * s)) p)"
  by (auto simp: wf_ScalarExpr_def comp_def split_beta)

lemma ScalarExpr_mul_num_wf:
  "wf_ScalarExpr p \<Longrightarrow> s \<noteq> 0 \<Longrightarrow> ScalarExpr_mul_num p s = map (\<lambda>(k, c). (k, c * s)) p"
  by (simp add: ScalarExpr_mul_num_def ScalarExpr_init_wf wf_ScalarExpr_scale)

lemma iadd_fold_fresh:
  "distinct (map fst ts) \<Longrightarrow> fst ` set ts \<inter> fst ` set d = {} \<Longrightarrow>
   fold (\<lambda>(vars, coef) new_terms. dict_iadd (0::rat) (+) new_terms vars coef) ts d = d @ ts"
proof (induction ts arbitrary: d)
  case Nil
  then show ?case by simp
next
  case (Cons t ts)
  obtain k c where t: "t = (k, c)" by (cases t)
  have k: "k \<notin> fst ` set d" using Cons.prems t by auto
  have "fst ` set ts \<inter> fst ` set (d @ [(k, c)]) = {}"
    using Cons.prems t by (auto simp: image_iff)
  then show ?case
    using Cons.IH [of "d @ [(k, c)]"] Cons.prems t k by (simp add: dict_iadd_fresh)
qed

lemma ScalarExpr_add_empty_wf: "wf_ScalarExpr q \<Longrightarrow> ScalarExpr_add [] q = q"
proof -
  assume w: "wf_ScalarExpr q"
  have f: "fold (\<lambda>(vars, coef) new_terms. dict_iadd (0::rat) (+) new_terms vars coef) q [] = q"
    using iadd_fold_fresh [of q "[]"] w by (simp add: wf_ScalarExpr_def)
  have "filter (\<lambda>(k, v). v \<noteq> 0) q = q"
    using w by (auto simp: wf_ScalarExpr_def intro!: filter_True)
  then show ?thesis using w f by (simp add: ScalarExpr_add_def ScalarExpr_init_wf)
qed



lemma pull_swaps_append:
  "pull_swaps c n (u @ v) =
     pull_swaps c n u + pull_swaps c (n + length (filter (\<lambda>x. x \<noteq> c) u)) v"
  by (induction u arbitrary: n) auto

lemma pull_swaps_absent: "c \<notin> set s \<Longrightarrow> pull_swaps c n s = 0"
  by (induction s arbitrary: n) auto

lemma filter_neq_absent: "c \<notin> set s \<Longrightarrow> filter (\<lambda>x. x \<noteq> c) s = s"
  by (induction s) auto

lemma blocks_cong: "(\<And>c. c \<in> set cs \<Longrightarrow> n c = m c) \<Longrightarrow> blocks cs n = blocks cs m"
  by (induction cs) auto

lemma count_list_absent: "c \<notin> set s \<Longrightarrow> count_list s c = 0"
  by (induction s) auto

lemma blocks_subseq:
  "distinct axs \<Longrightarrow> subseq k axs \<Longrightarrow> blocks axs (\<lambda>c. count_list k c mod 2) = k"
proof (induction axs arbitrary: k)
  case Nil
  then have "k = []" by simp
  then show ?case by simp
next
  case (Cons c cs)
  show ?case
  proof (cases "\<exists>k'. k = c # k'")
    case True
    then obtain k' where k: "k = c # k'" by blast
    then have s: "subseq k' cs" using Cons.prems by simp
    then have c: "c \<notin> set k'" using subseq_set_subset [OF s] Cons.prems by auto
    have "blocks cs (\<lambda>d. count_list k d mod 2) = blocks cs (\<lambda>d. count_list k' d mod 2)"
      using Cons.prems k by (intro blocks_cong) auto
    then show ?thesis
      using Cons.IH [OF _ s] Cons.prems k c by (simp add: count_list_absent)
  next
    case False
    then have s: "subseq k cs" using Cons.prems by (cases k) (auto split: if_splits)
    then have c: "c \<notin> set k" using subseq_set_subset [OF s] Cons.prems by auto
    show ?thesis using Cons.IH [OF _ s] Cons.prems c by (simp add: count_list_absent)
  qed
qed

lemma label_canonical: "canonical AXES k \<Longrightarrow> label k = k"
  unfolding label_def
  by (intro blocks_subseq canonical_imp_subseq) (simp_all add: AXES_def)

lemma label_rev: "label (rev k) = label k"
  by (simp add: label_def)

lemma triangle_step: "n + n * (n - 1) div 2 = Suc n * n div 2"
proof (cases n)
  case 0
  then show ?thesis by simp
next
  case (Suc m)
  have "Suc n * n = n * (n - 1) + 2 * n" using Suc by (simp add: algebra_simps)
  then have "Suc n * n div 2 = (n * (n - 1) + 2 * n) div 2" by simp
  also have "\<dots> = n * (n - 1) div 2 + n" by simp
  finally show ?thesis by simp
qed

lemma swaps_of_rev_subseq:
  "distinct axs \<Longrightarrow> subseq k axs \<Longrightarrow> swaps_of axs (rev k) = length k * (length k - 1) div 2"
proof (induction axs arbitrary: k)
  case Nil
  then have "k = []" by simp
  then show ?case by simp
next
  case (Cons c cs)
  show ?case
  proof (cases "\<exists>k'. k = c # k'")
    case True
    then obtain k' where k: "k = c # k'" by blast
    then have s: "subseq k' cs" using Cons.prems by simp
    then have c: "c \<notin> set k'" using subseq_set_subset [OF s] Cons.prems by auto
    have p: "pull_swaps c 0 (rev k) = length k'"
      using c by (simp add: k pull_swaps_append pull_swaps_absent filter_neq_absent)
    have f: "filter (\<lambda>x. x \<noteq> c) (rev k) = rev k'"
      using c by (simp add: k filter_neq_absent)
    show ?thesis
      using Cons.IH [OF _ s] Cons.prems p f k triangle_step [of "length k'"] by simp
  next
    case False
    then have s: "subseq k cs" using Cons.prems by (cases k) (auto split: if_splits)
    then have c: "c \<notin> set k" using subseq_set_subset [OF s] Cons.prems by auto
    show ?thesis
      using Cons.IH [OF _ s] Cons.prems c by (simp add: pull_swaps_absent filter_neq_absent)
  qed
qed

lemma count_list_distinct_le: "distinct k \<Longrightarrow> count_list k c \<le> 1"
  by (induction k) (auto simp: count_list_absent)

lemma subseq_distinct_list: "subseq xs ys \<Longrightarrow> distinct ys \<Longrightarrow> distinct xs"
proof (induction rule: list_emb.induct)
  case (list_emb_Cons2 x y xs ys)
  then show ?case using subseq_set_subset [of xs ys] by auto
qed auto

lemma canonical_distinct: "canonical AXES k \<Longrightarrow> distinct k"
  using subseq_distinct_list [of k AXES] canonical_imp_subseq [of AXES k] by (simp add: AXES_def)

lemma canonicalize_rev:
  "canonical AXES k \<Longrightarrow>
   canonicalize (rev k) = (k, (- 1) ^ (length k * (length k - 1) div 2))"
proof -
  assume c: "canonical AXES k"
  have "count_list k CHR ''-'' \<le> 1" using c by (intro count_list_distinct_le canonical_distinct)
  then have z: "count_list (rev k) CHR ''-'' div 2 = 0" by simp
  have s: "swaps_of AXES (rev k) = length k * (length k - 1) div 2"
    using c by (intro swaps_of_rev_subseq canonical_imp_subseq) (simp_all add: AXES_def)
  show ?thesis
    unfolding canonicalize_eq z s by (simp add: label_rev label_canonical [OF c])
qed


lemma ScalarExpr_bool_wf: "wf_ScalarExpr v \<Longrightarrow> v \<noteq> [] \<Longrightarrow> ScalarExpr_bool v"
  by (cases v) (auto simp: wf_ScalarExpr_def ScalarExpr_bool_def)

lemma CgaExpr_rev_fold:
  "distinct (map fst A) \<Longrightarrow> fst ` set A \<inter> fst ` set d = {} \<Longrightarrow>
   \<forall>(k, v) \<in> set A. canonical AXES k \<and> wf_ScalarExpr v \<and> v \<noteq> [] \<and> length k = g \<Longrightarrow>
   fold (\<lambda>(k, v) d.
        if scalar_bool v
        then (let (k, sign) = canonicalize k
              in dict_iadd [] ScalarExpr_add_scalar d k (scalar_mul_sign v sign))
        else d) (map (\<lambda>(k, v). (rev k, Poly v)) A) d
   = d @ map (\<lambda>(k, v). (k, map (\<lambda>(vars, c). (vars, c * (- 1) ^ (g * (g - 1) div 2))) v)) A"
proof (induction A arbitrary: d)
  case Nil
  then show ?case by simp
next
  case (Cons t A)
  obtain k v where t: "t = (k, v)" by (cases t)
  let ?sg = "(- 1) ^ (g * (g - 1) div 2) :: rat"
  let ?v' = "map (\<lambda>(vars, c). (vars, c * ?sg)) v"
  have k: "k \<notin> fst ` set d" "canonical AXES k" "wf_ScalarExpr v" "v \<noteq> []" "length k = g"
    using Cons.prems t by auto
  have c: "canonicalize (rev k) = (k, (- 1) ^ (g * (g - 1) div 2))"
    using canonicalize_rev [OF k(2)] k(5) by simp
  have m: "ScalarExpr_mul_num v (of_int ((- 1) ^ (g * (g - 1) div 2))) = ?v'"
    using ScalarExpr_mul_num_wf [OF k(3), of ?sg] by simp
  have w: "wf_ScalarExpr ?v'" using wf_ScalarExpr_scale [OF k(3), of ?sg] by simp
  have step: "dict_iadd [] ScalarExpr_add_scalar d k (Poly ?v') = d @ [(k, ?v')]"
    using k(1) w by (simp add: dict_iadd_fresh ScalarExpr_add_empty_wf)
  have "fst ` set A \<inter> fst ` set (d @ [(k, ?v')]) = {}"
    using Cons.prems t by (auto simp: image_iff)
  then show ?case
    using Cons.IH [of "d @ [(k, ?v')]"] Cons.prems t k c m step
    by (simp add: ScalarExpr_bool_wf)
qed

text \<open>
  Claim C5. For a multivector \<open>A\<close> that satisfies the data-model invariants and is
  homogeneous of grade \<open>g\<close>, \<open>A.rev\<close> is \<open>A\<close> scaled by \<open>(-1)^(g(g-1)/2)\<close>: the same labels
  in the same order, every coefficient of every polynomial multiplied by that sign.
\<close>

theorem CgaExpr_rev_homogeneous:
  "wf_CgaExpr A \<Longrightarrow> homogeneous g A \<Longrightarrow>
   CgaExpr_rev A =
     map (\<lambda>(k, v). (k, map (\<lambda>(vars, c). (vars, c * (- 1) ^ (g * (g - 1) div 2))) v)) A"
proof -
  assume w: "wf_CgaExpr A" and h: "homogeneous g A"
  have "\<forall>(k, v) \<in> set A. canonical AXES k \<and> wf_ScalarExpr v \<and> v \<noteq> [] \<and> length k = g"
    using w h by (fastforce simp: wf_CgaExpr_def homogeneous_def)
  moreover have "distinct (map fst A)" using w by (simp add: wf_CgaExpr_def)
  ultimately show ?thesis
    using CgaExpr_rev_fold [of A "[]" g] by (simp add: CgaExpr_rev_def CgaExpr_init_def)
qed

theorem CgaExpr_rev_homogeneous_witness:
  "wf_CgaExpr [(''-x'', [([''a''], 3)]), (''yz'', [([], 1 / 2)])] \<and>
   homogeneous 2 [(''-x'', [([''a''], 3)]), (''yz'', [([], 1 / 2)])] \<and>
   CgaExpr_rev [(''-x'', [([''a''], 3)]), (''yz'', [([], 1 / 2)])] =
     [(''-x'', [([''a''], - 3)]), (''yz'', [([], - (1 / 2))])]"
proof -
  have w: "wf_CgaExpr [(''-x'', [([''a''], 3)]), (''yz'', [([], 1 / 2)])]"
    by (simp add: wf_CgaExpr_def wf_ScalarExpr_def canonical_def AXES_def str_index_def)
  have h: "homogeneous 2 [(''-x'', [([''a''], 3)]), (''yz'', [([], 1 / 2)])]"
    by (simp add: homogeneous_def)
  show ?thesis using w h CgaExpr_rev_homogeneous [OF w h] by simp
qed


section \<open>The sign of a concatenation: canonicalize is compatible with the product of labels\<close>













lemma swaps_of_subseq: "distinct axs \<Longrightarrow> subseq k axs \<Longrightarrow> swaps_of axs k = 0"
proof (induction axs arbitrary: k)
  case Nil
  then have "k = []" by simp
  then show ?case by simp
next
  case (Cons c cs)
  show ?case
  proof (cases "\<exists>k'. k = c # k'")
    case True
    then obtain k' where k: "k = c # k'" by blast
    then have s: "subseq k' cs" using Cons.prems by simp
    then have c: "c \<notin> set k'" using subseq_set_subset [OF s] Cons.prems by auto
    show ?thesis
      using Cons.IH [OF _ s] Cons.prems c k by (simp add: pull_swaps_absent filter_neq_absent)
  next
    case False
    then have s: "subseq k cs" using Cons.prems by (cases k) (auto split: if_splits)
    then have c: "c \<notin> set k" using subseq_set_subset [OF s] Cons.prems by auto
    show ?thesis
      using Cons.IH [OF _ s] Cons.prems c by (simp add: pull_swaps_absent filter_neq_absent)
  qed
qed

lemma swaps_of_label: "swaps_of AXES (label u) = 0"
  using canonical_label [of u] by (intro swaps_of_subseq canonical_imp_subseq) (simp_all add: AXES_def)




lemma canonicalize_label_sgn: "canonicalize s = (label s, sgn_of s)"
  by (simp add: canonicalize_eq sgn_of_def)






lemma label_label: "label (label u) = label u"
  by (rule label_canonical) (rule canonical_label)

lemma sgn_of_label: "sgn_of (label u) = 1"
proof -
  have "count_list (label u) CHR ''-'' \<le> 1"
    by (intro count_list_distinct_le canonical_distinct canonical_label)
  then have "count_list (label u) CHR ''-'' div 2 = 0" by simp
  then show ?thesis by (simp add: sgn_of_def swaps_of_label)
qed

lemma set_label: "set (label u) \<subseteq> set AXES"
  using canonical_label [of u] by (simp add: canonical_def)


section \<open>The value of a polynomial and of a multivector\<close>


lemma pev_dict_iadd:
  "pev (dict_iadd 0 (+) d k' v) k = pev d k + (if sort k' = k then v else 0)"
  by (induction d) auto

lemma sort_sort: "sort (sort k) = sort k"
  by (rule sorted_sort_id) simp

lemma pev_dict_iadd_sort:
  "pev (dict_iadd 0 (+) d (sort k') v) k = pev d k + (if sort k' = k then v else 0)"
  unfolding pev_dict_iadd sort_sort by (rule refl)

lemma pev_init_fold:
  "pev (fold (\<lambda>(k, v) d. if v \<noteq> 0 then dict_iadd 0 (+) d (sort k) v else d) ts d) k
     = pev d k + pev ts k"
proof (induction ts arbitrary: d)
  case Nil
  then show ?case by simp
next
  case (Cons t ts)
  obtain k' c where t: "t = (k', c)" by (cases t)
  have step: "pev (if c \<noteq> 0 then dict_iadd 0 (+) d (sort k') c else d) k
      = pev d k + (if sort k' = k then c else 0)"
  proof (cases "c = 0")
    case True
    then show ?thesis by simp
  next
    case False
    then show ?thesis using pev_dict_iadd_sort [of d k' c k] by simp
  qed
  have "pev (fold (\<lambda>(k, v) d. if v \<noteq> 0 then dict_iadd 0 (+) d (sort k) v else d) (t # ts) d) k
      = pev (if c \<noteq> 0 then dict_iadd 0 (+) d (sort k') c else d) k + pev ts k"
    unfolding t by (simp add: Cons.IH)
  then show ?case unfolding step by (simp add: t)
qed

lemma pev_init: "pev (ScalarExpr_init ts) k = pev ts k"
  by (simp add: ScalarExpr_init_def pev_init_fold)

lemma pev_filter_nonzero: "pev (filter (\<lambda>(k, v). v \<noteq> 0) p) k = pev p k"
  by (induction p) auto

lemma pev_iadd_fold:
  "pev (fold (\<lambda>(vars, coef) new_terms. dict_iadd 0 (+) new_terms vars coef) q d) k
     = pev d k + pev q k"
proof (induction q arbitrary: d)
  case Nil
  then show ?case by simp
next
  case (Cons t q)
  obtain k' c where t: "t = (k', c)" by (cases t)
  show ?case using Cons.IH by (simp add: t pev_dict_iadd)
qed

lemma pev_add: "pev (ScalarExpr_add p q) k = pev p k + pev q k"
  by (simp add: ScalarExpr_add_def pev_init pev_filter_nonzero pev_iadd_fold)

lemma pev_scale: "pev (map (\<lambda>(k, v). (k, v * s)) p) k = pev p k * s"
  by (induction p) (auto simp: algebra_simps)

lemma pev_mul_num: "pev (ScalarExpr_mul_num p s) k = pev p k * s"
  by (simp add: ScalarExpr_mul_num_def pev_init pev_scale)




lemma pev_not_bool: "\<not> ScalarExpr_bool p \<Longrightarrow> pev p k = 0"
  by (induction p) (auto simp: ScalarExpr_bool_def)

lemma gev_append: "gev (xs @ ys) \<kappa> = gev xs \<kappa> + gev ys \<kappa>"
  by (induction xs) auto

lemma gev_absent: "\<kappa> \<notin> fst ` set ts \<Longrightarrow> gev ts \<kappa> = 0"
  by (induction ts) auto

lemma wsum_append: "wsum H (xs @ ys) = wsum H xs + wsum H ys"
  by (induction xs) auto




lemma nzf_append: "nzf (xs @ ys) = nzf xs @ nzf ys"
  by (simp add: nzf_def)

lemma fev_Nil [simp]: "fev [] l k = 0"
  by (simp add: fev_def nzf_def)

lemma fev_Cons:
  "fev (((l', k'), c) # ts) l k =
     (if label l' = l \<and> sort k' = k then of_int (sgn_of l') * c else 0) + fev ts l k"
  by (simp add: fev_def nzf_def)

lemma fev_append: "fev (xs @ ys) l k = fev xs l k + fev ys l k"
  by (simp add: fev_def nzf_append gev_append)

lemma fmul_Nil [simp]: "fmul [] ys = []"
  by (simp add: fmul_def)


















lemma fev_flat_row:
  "fev (map (\<lambda>(k, c). ((l', k), c)) p) l k =
     (if label l' = l then of_int (sgn_of l') * pev p k else 0)"
  by (induction p) (auto simp: fev_Cons algebra_simps)

lemma flat_Cons: "flat ((l', p) # A) = map (\<lambda>(k, c). ((l', k), c)) p @ flat A"
  by (simp add: flat_def)

lemma flat_Nil [simp]: "flat [] = []"
  by (simp add: flat_def)

lemma fev_flat_Cons:
  "fev (flat ((l', p) # A)) l k =
     (if label l' = l then of_int (sgn_of l') * pev p k else 0) + fev (flat A) l k"
  by (simp add: flat_Cons fev_append fev_flat_row)

lemma fev_flat_append: "fev (flat (A @ B)) l k = fev (flat A) l k + fev (flat B) l k"
  by (simp add: flat_def fev_append)


lemma pev_add_scalar: "pev (ScalarExpr_add_scalar old w) k = pev old k + scal_ev w k"
  by (cases w) (auto simp: ScalarExpr_add_num_def pev_add pev_init)

lemma fev_flat_dict_iadd_scalar:
  "fev (flat (dict_iadd [] ScalarExpr_add_scalar d l' w)) l k =
     fev (flat d) l k + (if label l' = l then of_int (sgn_of l') * scal_ev w k else 0)"
proof (induction d)
  case Nil
  then show ?case by (simp add: fev_flat_Cons pev_add_scalar)
next
  case (Cons e d)
  obtain l'' p where e: "e = (l'', p)" by (cases e)
  show ?case using Cons.IH by (auto simp: e fev_flat_Cons pev_add_scalar algebra_simps)
qed


lemma fev_flat_dict_iadd_scalar_label:
  "fev (flat (dict_iadd [] ScalarExpr_add_scalar d (label l0) w)) l k =
     fev (flat d) l k + (if label l0 = l then scal_ev w k else 0)"
  unfolding fev_flat_dict_iadd_scalar label_label sgn_of_label by simp

lemma scal_ev_mul_sign: "scal_ev (scalar_mul_sign v s) k = scal_ev v k * of_int s"
  by (cases v) (auto simp: pev_mul_num)

lemma scal_ev_not_bool: "\<not> scalar_bool v \<Longrightarrow> scal_ev v k = 0"
  by (cases v) (auto simp: pev_not_bool)

lemma fev_init_step:
  "fev (flat (if scalar_bool v
        then (let (k, sign) = canonicalize l0
              in dict_iadd [] ScalarExpr_add_scalar d k (scalar_mul_sign v sign))
        else d)) l k
   = fev (flat d) l k + (if label l0 = l then of_int (sgn_of l0) * scal_ev v k else 0)"
proof (cases "scalar_bool v")
  case True
  then show ?thesis
    by (simp add: canonicalize_label_sgn fev_flat_dict_iadd_scalar_label scal_ev_mul_sign)
next
  case False
  then show ?thesis by (simp add: scal_ev_not_bool)
qed

lemma fev_init_fold:
  "fev (flat (fold (\<lambda>(k, v) d.
        if scalar_bool v
        then (let (k, sign) = canonicalize k
              in dict_iadd [] ScalarExpr_add_scalar d k (scalar_mul_sign v sign))
        else d) ts d)) l k
   = fev (flat d) l k + sev ts l k"
proof (induction ts arbitrary: d)
  case Nil
  then show ?case by simp
next
  case (Cons t ts)
  obtain l0 v where t: "t = (l0, v)" by (cases t)
  show ?case
    unfolding t fold_Cons comp_apply prod.case Cons.IH fev_init_step by simp
qed

lemma fev_init: "fev (flat (CgaExpr_init ts)) l k = sev ts l k"
  by (simp add: CgaExpr_init_def fev_init_fold)





lemma fmul_Nil_right [simp]: "fmul xs [] = []"
  by (induction xs) (auto simp: fmul_def)






















section \<open>The geometric product is associative\<close>





section \<open>The product satisfies the data-model invariants; the conformal point is a null vector\<close>





















lemma fev_CgaExpr_mul_num: "fev (flat (CgaExpr_mul_num A r)) l k = fev (flat A) l k * r"
proof -
  have "sev (map (\<lambda>(k, v). (k, Poly (ScalarExpr_mul_num v r))) A) l k = fev (flat A) l k * r"
    by (induction A) (auto simp: fev_flat_Cons pev_mul_num algebra_simps)
  then show ?thesis by (simp add: CgaExpr_mul_num_def fev_init)
qed

lemma label_append_Nil: "label (l @ []) = label l"
  by simp





lemma pev_rawmul_Nil_right: "pev (rawmul p []) k = 0"
  by (induction p) (auto simp: rawmul_def)















end
